theory Spec2Isabelle
  imports Main
begin

section \<open>The Program resource of src/webgl/program.js\<close>

text \<open>
  A shallow embedding of the class \<open>Program\<close>. The program object and the
  graphics context it talks to are two records that every method receives and
  returns; a \<open>throw\<close> is an error value returned next to the state reached
  when it was raised, because the mutations made before a JavaScript exception
  stay in place.

  JavaScript objects used as dictionaries are association lists in iteration
  order (\<open>for ... in\<close> visits string keys in insertion order) or functions from
  names; only own properties are modelled, so names inherited from
  \<open>Object.prototype\<close> are outside the model. The keys of an object are
  pairwise different; no property below needs that of its lists.
\<close>

subsection \<open>Constants of the graphics API\<close>

text \<open>
  The module \<open>./api\<close> that exports \<open>GL\<close> is not part of the sources. The
  enumerants that program.js names are the constructors of \<open>GLenum\<close>, any
  other enumerant is \<open>GL_OTHER n\<close>; the only property of the numeric values
  that program.js relies on is that they are pairwise different.
\<close>

datatype GLenum =
    GL_DELETE_STATUS
  | GL_LINK_STATUS
  | GL_VALIDATE_STATUS
  | GL_ATTACHED_SHADERS
  | GL_ACTIVE_ATTRIBUTES
  | GL_ACTIVE_UNIFORMS
  | GL_TRANSFORM_FEEDBACK_BUFFER_MODE
  | GL_TRANSFORM_FEEDBACK_VARYINGS
  | GL_ACTIVE_UNIFORM_BLOCKS
  | GL_SEPARATE_ATTRIBS
  | GL_ARRAY_BUFFER
  | GL_ELEMENT_ARRAY_BUFFER
  | GL_TRIANGLES
  | GL_UNSIGNED_SHORT
  | GL_OTHER nat

text \<open>\<open>static PARAMETERS\<close> of the class.\<close>

definition PARAMETERS :: "GLenum list" where
  "PARAMETERS =
     [GL_DELETE_STATUS, GL_LINK_STATUS, GL_VALIDATE_STATUS, GL_ATTACHED_SHADERS,
      GL_ACTIVE_ATTRIBUTES, GL_ACTIVE_UNIFORMS, GL_TRANSFORM_FEEDBACK_BUFFER_MODE,
      GL_TRANSFORM_FEEDBACK_VARYINGS, GL_ACTIVE_UNIFORM_BLOCKS]"

text \<open>
  What a program-parameter query returns: a boolean, a number, an enumerant, or
  \<open>null\<close> (the native answer to an enumerant the context does not know).
\<close>

datatype param_value =
    GLboolean bool
  | GLint int
  | GLenum_value GLenum
  | GLnull

subsection \<open>Buffers and textures\<close>

text \<open>
  Modelled from the spec: the classes \<open>Buffer\<close> and \<open>Texture\<close> are not among
  the sources. A buffer exposes its binding target and a layout with an
  \<open>instanced\<close> flag and an element type; \<open>Buffer.makeFrom\<close> returns a value
  that already is a buffer unchanged. On a boolean flag the two tests of
  \<open>setBuffers\<close>, \<open>instanced ? 1 : 0\<close> and \<open>instanced > 0\<close>, agree.
\<close>

record buffer_layout =
  instanced :: bool
  elementType :: GLenum

record buffer =
  buffer_handle :: nat
  target :: GLenum
  layout :: buffer_layout

type_synonym texture = nat

subsection \<open>The graphics context\<close>

text \<open>The draw commands and \<open>useProgram\<close>, as the context receives them.\<close>

datatype gl_command =
    UseProgram nat
  | DrawElementsInstancedANGLE GLenum int GLenum int int
  | DrawArraysInstancedANGLE GLenum int int int
  | DrawElements GLenum int GLenum int
  | DrawArrays GLenum int int

record gl_context =
  isWebGL2Context :: bool
  ANGLE_instanced_arrays :: bool
  getProgramParameter :: "nat \<Rightarrow> GLenum \<Rightarrow> param_value"
  attrib_enabled :: "nat \<Rightarrow> bool"
  attrib_buffer :: "nat \<Rightarrow> buffer option"
  attrib_divisor :: "nat \<Rightarrow> nat"
  bound_buffer :: "GLenum \<Rightarrow> buffer option"
  texture_unit :: "nat \<Rightarrow> texture option"
  uniform_value :: "nat \<Rightarrow> int list option"
  commands :: "gl_command list"

text \<open>
  Modelled from the spec: the module \<open>./vertex-attributes\<close> is not among the
  sources. Its primitives enable or disable a numeric slot, make a buffer the
  data source of a slot, and set the instancing divisor of a slot; each one
  touches that one property of that one slot.
\<close>

definition VertexAttributes_enable :: "gl_context \<Rightarrow> nat \<Rightarrow> gl_context" where
  "VertexAttributes_enable gl location =
     gl\<lparr>attrib_enabled := (attrib_enabled gl)(location := True)\<rparr>"

definition VertexAttributes_disable :: "gl_context \<Rightarrow> nat \<Rightarrow> gl_context" where
  "VertexAttributes_disable gl location =
     gl\<lparr>attrib_enabled := (attrib_enabled gl)(location := False)\<rparr>"

definition VertexAttributes_setBuffer :: "gl_context \<Rightarrow> nat \<Rightarrow> buffer \<Rightarrow> gl_context" where
  "VertexAttributes_setBuffer gl location b =
     gl\<lparr>attrib_buffer := (attrib_buffer gl)(location := Some b)\<rparr>"

definition VertexAttributes_setDivisor :: "gl_context \<Rightarrow> nat \<Rightarrow> nat \<Rightarrow> gl_context" where
  "VertexAttributes_setDivisor gl location divisor =
     gl\<lparr>attrib_divisor := (attrib_divisor gl)(location := divisor)\<rparr>"

text \<open>
  Modelled from the spec: \<open>buffer.bind()\<close> binds the buffer to its own target,
  \<open>gl.bindBuffer(target, null)\<close> clears a target, \<open>texture.bind(unit)\<close> binds
  the texture to a unit.
\<close>

definition Buffer_bind :: "gl_context \<Rightarrow> buffer \<Rightarrow> gl_context" where
  "Buffer_bind gl b = gl\<lparr>bound_buffer := (bound_buffer gl)(target b := Some b)\<rparr>"

definition bindBuffer_null :: "gl_context \<Rightarrow> GLenum \<Rightarrow> gl_context" where
  "bindBuffer_null gl tgt = gl\<lparr>bound_buffer := (bound_buffer gl)(tgt := None)\<rparr>"

definition Texture_bind :: "gl_context \<Rightarrow> texture \<Rightarrow> nat \<Rightarrow> gl_context" where
  "Texture_bind gl t unit_index = gl\<lparr>texture_unit := (texture_unit gl)(unit_index := Some t)\<rparr>"

definition issue :: "gl_context \<Rightarrow> gl_command \<Rightarrow> gl_context" where
  "issue gl c = gl\<lparr>commands := commands gl @ [c]\<rparr>"

subsection \<open>The program object\<close>

text \<open>
  Modelled from the spec: \<open>getUniformSetter\<close> of \<open>./uniforms\<close> is not among
  the sources. A setter is a closure over the location of its uniform that
  pushes the value it is called with to that location; program.js stores the
  texture unit of a sampler in the property \<open>textureIndex\<close> of the setter,
  \<open>None\<close> while it is \<open>undefined\<close>.
\<close>

record uniform_setter =
  setter_location :: nat
  textureIndex :: "nat option"

definition call_setter :: "gl_context \<Rightarrow> uniform_setter \<Rightarrow> int list \<Rightarrow> gl_context" where
  "call_setter gl s v = gl\<lparr>uniform_value := (uniform_value gl)(setter_location s := Some v)\<rparr>"

datatype warning =
    NotUsed string
  | NotSupplied int string

datatype error =
    ExpectsMapOfBuffers
  | DuplicateElementArrayBuffer string
  | LocationAndElementArrayBuffer string int
  | TypeError

text \<open>
  A shader as \<open>initialize\<close> sees it: what \<open>getName()\<close> answers (the empty
  string when it answers nothing) and the source text. The shader library
  \<open>SHADERS.DEFAULT\<close> is not among the sources and is a parameter of
  \<open>initialize\<close>.
\<close>

record shader_source =
  getName :: string
  source_text :: string

datatype shader = VertexShader shader_source | FragmentShader shader_source

type_synonym uniform_map = "(string \<times> int list) list"

record default_shaders =
  default_vs :: shader_source
  default_fs :: shader_source
  default_defaultUniforms :: uniform_map

record program_opts =
  opts_vs :: "shader option"
  opts_fs :: "shader option"
  opts_defaultUniforms :: "uniform_map option"

record program =
  program_id :: string
  opts :: program_opts
  handle :: nat
  attributeLocations :: "(string \<times> int) list"
  attributeCount :: nat
  warn :: "string \<Rightarrow> bool"
  filledLocations :: "string set"
  uniformSetters :: "string \<Rightarrow> uniform_setter option"
  uniformCount :: nat
  textureIndexCounter :: nat
  logged :: "warning list"

text \<open>\<open>log.warn\<close>: the messages are kept, oldest first, with the program.\<close>

definition log_warn :: "program \<Rightarrow> warning \<Rightarrow> program" where
  "log_warn this w = this\<lparr>logged := logged this @ [w]\<rparr>"

subsection \<open>initialize\<close>

record initialize_args =
  arg_vs :: "shader_source option"
  arg_fs :: "shader_source option"
  arg_defaultUniforms :: "uniform_map option"

text \<open>
  A destructuring default applies when the property is \<open>undefined\<close>
  (\<open>None\<close>). In the condition \<open>&&\<close> binds tighter than \<open>||\<close>. The function
  \<open>uid\<close> of \<open>../utils\<close> is a parameter.
\<close>

definition initialize ::
  "default_shaders \<Rightarrow> (string \<Rightarrow> string) \<Rightarrow> program \<Rightarrow> initialize_args \<Rightarrow> program" where
  "initialize SHADERS_DEFAULT uid this args =
     (let vs = (case arg_vs args of None \<Rightarrow> default_vs SHADERS_DEFAULT | Some v \<Rightarrow> v);
          fs = (case arg_fs args of None \<Rightarrow> default_fs SHADERS_DEFAULT | Some f \<Rightarrow> f);
          defaultUniforms = arg_defaultUniforms args;
          programName = (if getName vs \<noteq> [] then getName vs else getName fs);
          programName = (if programName \<noteq> [] then programName @ ''-program'' else ''program'');
          this = this\<lparr>program_id :=
                   (if program_id this \<noteq> [] then program_id this else uid programName)\<rparr>;
          defaultUniforms =
            (if vs = default_vs SHADERS_DEFAULT \<or>
                (fs = default_fs SHADERS_DEFAULT \<and> defaultUniforms = None)
             then Some (default_defaultUniforms SHADERS_DEFAULT)
             else defaultUniforms)
      in this\<lparr>opts := \<lparr>opts_vs = Some (VertexShader vs),
                        opts_fs = Some (FragmentShader fs),
                        opts_defaultUniforms = defaultUniforms\<rparr>\<rparr>)"

subsection \<open>use and draw\<close>

definition use :: "program \<Rightarrow> gl_context \<Rightarrow> gl_context" where
  "use this gl = issue gl (UseProgram (handle this))"

text \<open>
  The parameter object of \<open>draw\<close>; \<open>None\<close> is a property left \<open>undefined\<close>,
  which takes the default of the destructuring pattern. \<open>vertexCount\<close> has no
  default.
\<close>

record draw_args =
  drawMode :: "GLenum option"
  vertexCount :: int
  offset :: "int option"
  isIndexed :: "bool option"
  indexType :: "GLenum option"
  isInstanced :: "bool option"
  instanceCount :: "int option"

definition or_default :: "'a option \<Rightarrow> 'a \<Rightarrow> 'a" where
  "or_default v d = (case v of None \<Rightarrow> d | Some x \<Rightarrow> x)"

text \<open>
  \<open>gl.getExtension('ANGLE_instanced_arrays')\<close> is \<open>null\<close> on a context
  without the extension; calling a method of \<open>null\<close> throws a TypeError. The
  context passed to \<open>draw\<close> is the program's own.
\<close>

definition draw :: "program \<Rightarrow> gl_context \<Rightarrow> draw_args \<Rightarrow> error option \<times> gl_context" where
  "draw this gl0 args =
     (let drawMode = or_default (drawMode args) GL_TRIANGLES;
          vertexCount = vertexCount args;
          offset = or_default (offset args) 0;
          isIndexed = or_default (isIndexed args) False;
          indexType = or_default (indexType args) GL_UNSIGNED_SHORT;
          isInstanced = or_default (isInstanced args) False;
          instanceCount = or_default (instanceCount args) 0;
          gl = use this gl0;
          extension = ANGLE_instanced_arrays gl
      in if isInstanced \<and> isIndexed then
           (if extension
            then (None, issue gl (DrawElementsInstancedANGLE
                                    drawMode vertexCount indexType offset instanceCount))
            else (Some TypeError, gl))
         else if isInstanced then
           (if extension
            then (None, issue gl (DrawArraysInstancedANGLE
                                    drawMode offset vertexCount instanceCount))
            else (Some TypeError, gl))
         else if isIndexed then
           (None, issue gl (DrawElements drawMode vertexCount indexType offset))
         else
           (None, issue gl (DrawArrays drawMode offset vertexCount)))"

subsection \<open>getParameter\<close>

definition getParameter :: "program \<Rightarrow> gl_context \<Rightarrow> GLenum \<Rightarrow> param_value" where
  "getParameter this gl pname =
     (let native = getProgramParameter gl (handle this) pname
      in if \<not> isWebGL2Context gl then
           (case pname of
              GL_ACTIVE_UNIFORMS \<Rightarrow> GLint 0
            | GL_TRANSFORM_FEEDBACK_BUFFER_MODE \<Rightarrow> GLenum_value GL_SEPARATE_ATTRIBS
            | GL_TRANSFORM_FEEDBACK_VARYINGS \<Rightarrow> GLint 0
            | GL_ACTIVE_UNIFORM_BLOCKS \<Rightarrow> GLint 0
            | _ \<Rightarrow> native)
         else native)"

definition getAttributeCount :: "program \<Rightarrow> gl_context \<Rightarrow> param_value" where
  "getAttributeCount this gl = getParameter this gl GL_ACTIVE_ATTRIBUTES"

definition getUniformCount :: "program \<Rightarrow> gl_context \<Rightarrow> param_value" where
  "getUniformCount this gl = getParameter this gl GL_ACTIVE_UNIFORMS"

subsection \<open>setBuffers\<close>

text \<open>
  The first argument of \<open>setBuffers\<close> is an array, which is refused, or an
  object that maps names to buffers.
\<close>

datatype buffers_arg =
    BufferArray "buffer list"
  | BufferMap "(string \<times> buffer) list"

text \<open>
  The three properties that \<open>setBuffers\<close> writes into the caller's
  \<open>drawParams\<close> object. \<open>None\<close> is a property that is \<open>undefined\<close>
  or, for \<open>indexType\<close>, \<open>null\<close>.
\<close>

record draw_params =
  dp_isInstanced :: "bool option"
  dp_isIndexed :: "bool option"
  dp_indexType :: "GLenum option"

record setBuffers_options =
  clear :: bool
  check :: bool
  drawParams :: draw_params

definition default_options :: setBuffers_options where
  "default_options =
     \<lparr>clear = True, check = True,
      drawParams = \<lparr>dp_isInstanced = None, dp_isIndexed = None, dp_indexType = None\<rparr>\<rparr>"

text \<open>
  \<open>elements\<close> holds \<open>null\<close> or a buffer name, and both tests of it are
  truthiness tests: the empty name counts as no name.
\<close>

definition truthy :: "string option \<Rightarrow> bool" where
  "truthy elements = (case elements of None \<Rightarrow> False | Some n \<Rightarrow> n \<noteq> [])"

text \<open>
  \<open>locations[location] = bufferName\<close> on a JavaScript array: an index past
  the end extends the array with holes, a negative number is an ordinary
  property and no element.
\<close>

definition array_store :: "'a option list \<Rightarrow> int \<Rightarrow> 'a \<Rightarrow> 'a option list" where
  "array_store xs i v =
     (if i < 0 then xs
      else if nat i < length xs then xs[nat i := Some v]
      else xs @ replicate (nat i - length xs) None @ [Some v])"

record sorted_buffers =
  locations :: "string option list"
  elements :: "string option"

fun sortBuffersLoop ::
  "(string \<times> buffer) list \<Rightarrow> sorted_buffers \<Rightarrow> program \<Rightarrow> (error + sorted_buffers) \<times> program" where
  "sortBuffersLoop [] acc this = (Inr acc, this)"
| "sortBuffersLoop ((bufferName, buffer) # rest) acc this =
     (case map_of (attributeLocations this) bufferName of
        None \<Rightarrow>
          if target buffer = GL_ELEMENT_ARRAY_BUFFER \<and> truthy (elements acc)
            then (Inl (DuplicateElementArrayBuffer bufferName), this)
          else if target buffer = GL_ELEMENT_ARRAY_BUFFER
            then sortBuffersLoop rest (acc\<lparr>elements := Some bufferName\<rparr>) this
          else if \<not> warn this bufferName
            then sortBuffersLoop rest acc
                   ((log_warn this (NotUsed bufferName))\<lparr>warn := (warn this)(bufferName := True)\<rparr>)
          else sortBuffersLoop rest acc this
      | Some location \<Rightarrow>
          if target buffer = GL_ELEMENT_ARRAY_BUFFER
            then (Inl (LocationAndElementArrayBuffer bufferName location), this)
          else sortBuffersLoop rest
                 (acc\<lparr>locations := array_store (locations acc) location bufferName\<rparr>) this)"

definition sortBuffersByLocation ::
  "program \<Rightarrow> (string \<times> buffer) list \<Rightarrow> (error + sorted_buffers) \<times> program" where
  "sortBuffersByLocation this buffers =
     sortBuffersLoop buffers
       \<lparr>locations = replicate (attributeCount this) None, elements = None\<rparr> this"

text \<open>
  The loop over the slots. A hole of \<open>locations\<close> reads as \<open>undefined\<close>, and
  \<open>buffers[undefined]\<close> is the property named \<open>undefined\<close>.
\<close>

fun bindLocations ::
  "(string \<times> buffer) list \<Rightarrow> string option list \<Rightarrow> nat \<Rightarrow>
   program \<times> gl_context \<times> draw_params \<Rightarrow> program \<times> gl_context \<times> draw_params" where
  "bindLocations buffers [] location st = st"
| "bindLocations buffers (entry # rest) location (this, gl, dp) =
     (let bufferName = (case entry of None \<Rightarrow> ''undefined'' | Some n \<Rightarrow> n)
      in case map_of buffers bufferName of
           None \<Rightarrow>
             bindLocations buffers rest (Suc location)
               (this, VertexAttributes_disable gl location, dp)
         | Some buffer \<Rightarrow>
             (let divisor = (if instanced (layout buffer) then 1 else 0);
                  gl = VertexAttributes_enable gl location;
                  gl = VertexAttributes_setBuffer gl location buffer;
                  gl = VertexAttributes_setDivisor gl location divisor;
                  dp = dp\<lparr>dp_isInstanced := Some (instanced (layout buffer))\<rparr>;
                  this = this\<lparr>filledLocations := insert bufferName (filledLocations this)\<rparr>
              in bindLocations buffers rest (Suc location) (this, gl, dp)))"

text \<open>\<open>buffers[elements].bind()\<close> throws a TypeError if the property is missing.\<close>

definition bindElements ::
  "(string \<times> buffer) list \<Rightarrow> string option \<Rightarrow> gl_context \<times> draw_params \<Rightarrow>
   error + gl_context \<times> draw_params" where
  "bindElements buffers elems st =
     (case st of (gl, dp) \<Rightarrow>
        if truthy elems then
          (case map_of buffers (case elems of None \<Rightarrow> [] | Some n \<Rightarrow> n) of
             None \<Rightarrow> Inl TypeError
           | Some buffer \<Rightarrow>
               Inr (Buffer_bind gl buffer,
                    dp\<lparr>dp_isIndexed := Some True,
                       dp_indexType := Some (elementType (layout buffer))\<rparr>))
        else Inr (gl, dp))"

fun checkBuffersLoop :: "(string \<times> int) list \<Rightarrow> program \<Rightarrow> program" where
  "checkBuffersLoop [] this = this"
| "checkBuffersLoop ((attributeName, location) # rest) this =
     (if attributeName \<notin> filledLocations this \<and> \<not> warn this attributeName
      then checkBuffersLoop rest
             ((log_warn this (NotSupplied location attributeName))
                \<lparr>warn := (warn this)(attributeName := True)\<rparr>)
      else checkBuffersLoop rest this)"

definition checkBuffers :: "program \<Rightarrow> program" where
  "checkBuffers this = checkBuffersLoop (attributeLocations this) this"

definition setBuffers ::
  "program \<Rightarrow> gl_context \<Rightarrow> buffers_arg \<Rightarrow> setBuffers_options \<Rightarrow>
   error option \<times> program \<times> gl_context \<times> draw_params" where
  "setBuffers this0 gl0 buffers_in options =
     (case buffers_in of
        BufferArray _ \<Rightarrow> (Some ExpectsMapOfBuffers, this0, gl0, drawParams options)
      | BufferMap buffers \<Rightarrow>
          (let this1 = (if clear options then this0\<lparr>filledLocations := {}\<rparr> else this0);
               dp1 = \<lparr>dp_isInstanced = Some False, dp_isIndexed = Some False,
                      dp_indexType = None\<rparr>
           in case sortBuffersByLocation this1 buffers of
                (Inl e, this2) \<Rightarrow> (Some e, this2, gl0, dp1)
              | (Inr srt, this2) \<Rightarrow>
                  (case bindLocations buffers (locations srt) 0 (this2, gl0, dp1) of
                     (this3, gl3, dp3) \<Rightarrow>
                       (case bindElements buffers (elements srt) (gl3, dp3) of
                          Inl e \<Rightarrow> (Some e, this3, gl3, dp3)
                        | Inr (gl4, dp4) \<Rightarrow>
                            (None, if check options then checkBuffers this3 else this3,
                             gl4, dp4)))))"

subsection \<open>unsetBuffers\<close>

function unsetBuffersLoop :: "nat \<Rightarrow> nat \<Rightarrow> gl_context \<Rightarrow> gl_context" where
  "unsetBuffersLoop i len gl =
     (if i < len then unsetBuffersLoop (Suc i) len (VertexAttributes_disable gl i) else gl)"
  by pat_completeness auto
termination
  by (relation "measure (\<lambda>(i, len, gl). len - i)") auto

definition unsetBuffers :: "program \<Rightarrow> gl_context \<Rightarrow> gl_context" where
  "unsetBuffers this gl =
     bindBuffer_null (unsetBuffersLoop 1 (attributeCount this) gl) GL_ELEMENT_ARRAY_BUFFER"

subsection \<open>setUniforms\<close>

text \<open>A value of the uniform map: a \<open>Texture\<close> instance or anything else.\<close>

datatype uniform = TextureUniform texture | ValueUniform "int list"

fun setUniforms ::
  "program \<Rightarrow> gl_context \<Rightarrow> (string \<times> uniform) list \<Rightarrow> program \<times> gl_context" where
  "setUniforms this gl [] = (this, gl)"
| "setUniforms this gl ((uniformName, u) # rest) =
     (case uniformSetters this uniformName of
        None \<Rightarrow> setUniforms this gl rest
      | Some uniformSetter \<Rightarrow>
          (case u of
             TextureUniform tex \<Rightarrow>
               (case textureIndex uniformSetter of
                  None \<Rightarrow>
                    (let unit_index = textureIndexCounter this;
                         uniformSetter' = uniformSetter\<lparr>textureIndex := Some unit_index\<rparr>;
                         this' = this\<lparr>textureIndexCounter := Suc (textureIndexCounter this),
                                      uniformSetters :=
                                        (uniformSetters this)(uniformName \<mapsto> uniformSetter')\<rparr>;
                         gl' = call_setter (Texture_bind gl tex unit_index) uniformSetter'
                                 [int unit_index]
                     in setUniforms this' gl' rest)
                | Some unit_index \<Rightarrow>
                    setUniforms this
                      (call_setter (Texture_bind gl tex unit_index) uniformSetter
                         [int unit_index]) rest)
           | ValueUniform v \<Rightarrow> setUniforms this (call_setter gl uniformSetter v) rest))"

section \<open>Notions used by the properties\<close>

text \<open>
  The dispatch table of the design document, section 4.6, row by row: which
  native call \<open>draw\<close> is to make for each value of \<open>isInstanced\<close> and
  \<open>isIndexed\<close>, and with which arguments.
\<close>

fun dispatch_table ::
  "bool \<Rightarrow> bool \<Rightarrow> GLenum \<Rightarrow> int \<Rightarrow> int \<Rightarrow> GLenum \<Rightarrow> int \<Rightarrow> gl_command" where
  "dispatch_table True True mode count off itype instances =
     DrawElementsInstancedANGLE mode count itype off instances"
| "dispatch_table True False mode count off itype instances =
     DrawArraysInstancedANGLE mode off count instances"
| "dispatch_table False True mode count off itype instances =
     DrawElements mode count itype off"
| "dispatch_table False False mode count off itype instances =
     DrawArrays mode off count"

text \<open>
  The bound state of the context: which slots are enabled, the buffer and the
  divisor of every slot, and the buffer bound to every target.
\<close>

definition bound_state ::
  "gl_context \<Rightarrow>
   (nat \<Rightarrow> bool) \<times> (nat \<Rightarrow> buffer option) \<times> (nat \<Rightarrow> nat) \<times> (GLenum \<Rightarrow> buffer option)" where
  "bound_state gl = (attrib_enabled gl, attrib_buffer gl, attrib_divisor gl, bound_buffer gl)"

text \<open>The two errors of the binding-conflict kind.\<close>

definition binding_conflict :: "error \<Rightarrow> bool" where
  "binding_conflict e =
     (case e of
        DuplicateElementArrayBuffer n \<Rightarrow> True
      | LocationAndElementArrayBuffer n l \<Rightarrow> True
      | ExpectsMapOfBuffers \<Rightarrow> False
      | TypeError \<Rightarrow> False)"

text \<open>
  The buffers of a map that declare the element-array target, split by whether
  their name is the name of an attribute (\<open>als\<close> is \<open>attributeLocations\<close>).
\<close>

definition located_elements ::
  "(string \<times> int) list \<Rightarrow> (string \<times> buffer) list \<Rightarrow> (string \<times> buffer) list" where
  "located_elements als bs =
     filter (\<lambda>(n, b). target b = GL_ELEMENT_ARRAY_BUFFER \<and> map_of als n \<noteq> None) bs"

definition index_candidates ::
  "(string \<times> int) list \<Rightarrow> (string \<times> buffer) list \<Rightarrow> (string \<times> buffer) list" where
  "index_candidates als bs =
     filter (\<lambda>(n, b). target b = GL_ELEMENT_ARRAY_BUFFER \<and> map_of als n = None) bs"

text \<open>The texture unit recorded for a uniform name, if any.\<close>

definition unit_of :: "program \<Rightarrow> string \<Rightarrow> nat option" where
  "unit_of this uniformName =
     (case uniformSetters this uniformName of None \<Rightarrow> None | Some s \<Rightarrow> textureIndex s)"

text \<open>
  The state of the unit allocator is sound when every recorded unit lies below
  the counter and no unit is recorded for two names. \<open>_createHandle\<close> leaves
  the counter at 0 and every \<open>textureIndex\<close> undefined.
\<close>

definition units_allocated :: "program \<Rightarrow> bool" where
  "units_allocated this \<longleftrightarrow>
     (\<forall>n k. unit_of this n = Some k \<longrightarrow> k < textureIndexCounter this) \<and>
     (\<forall>n m k. unit_of this n = Some k \<and> unit_of this m = Some k \<longrightarrow> n = m)"

definition freshly_linked :: "program \<Rightarrow> bool" where
  "freshly_linked this \<longleftrightarrow>
     textureIndexCounter this = 0 \<and> (\<forall>n. unit_of this n = None) \<and>
     filledLocations this = {} \<and> (\<forall>n. \<not> warn this n)"

text \<open>Successive calls of \<open>setUniforms\<close> on one program, oldest first.\<close>

fun setUniforms_calls ::
  "program \<Rightarrow> gl_context \<Rightarrow> (string \<times> uniform) list list \<Rightarrow> program \<times> gl_context" where
  "setUniforms_calls this gl [] = (this, gl)"
| "setUniforms_calls this gl (uniforms # later) =
     (case setUniforms this gl uniforms of (this', gl') \<Rightarrow> setUniforms_calls this' gl' later)"

subsection \<open>Concrete programs, contexts and buffers\<close>

definition context_example :: gl_context where
  "context_example =
     \<lparr>isWebGL2Context = False, ANGLE_instanced_arrays = True,
      getProgramParameter =
        (\<lambda>h pname. if pname = GL_ACTIVE_UNIFORMS then GLint 3 else GLnull),
      attrib_enabled = (\<lambda>i. False), attrib_buffer = (\<lambda>i. None),
      attrib_divisor = (\<lambda>i. 0), bound_buffer = (\<lambda>t. None),
      texture_unit = (\<lambda>u. None), uniform_value = (\<lambda>l. None), commands = []\<rparr>"

definition array_buffer :: "nat \<Rightarrow> bool \<Rightarrow> buffer" where
  "array_buffer h inst =
     \<lparr>buffer_handle = h, target = GL_ARRAY_BUFFER,
      layout = \<lparr>instanced = inst, elementType = GL_OTHER 5126\<rparr>\<rparr>"

definition element_buffer :: "nat \<Rightarrow> buffer" where
  "element_buffer h =
     \<lparr>buffer_handle = h, target = GL_ELEMENT_ARRAY_BUFFER,
      layout = \<lparr>instanced = False, elementType = GL_UNSIGNED_SHORT\<rparr>\<rparr>"

text \<open>
  A WebGL2 context: instancing is built in, and \<open>getExtension\<close> does not
  offer \<open>ANGLE_instanced_arrays\<close>.
\<close>

definition context_webgl2 :: gl_context where
  "context_webgl2 = context_example\<lparr>isWebGL2Context := True, ANGLE_instanced_arrays := False\<rparr>"

text \<open>A context in which an earlier draw left both slots and the index buffer bound.\<close>

definition context_in_use :: gl_context where
  "context_in_use =
     context_example
       \<lparr>attrib_enabled := (\<lambda>i. i < 2),
        attrib_buffer := (\<lambda>i. if i < 2 then Some (array_buffer (Suc i) (i = 0)) else None),
        attrib_divisor := (\<lambda>i. if i = 0 then 1 else 0),
        bound_buffer := (\<lambda>t. if t = GL_ELEMENT_ARRAY_BUFFER then Some (element_buffer 3) else None)\<rparr>"

text \<open>
  A program as \<open>_createHandle\<close> leaves it: two attributes, two sampler
  uniforms, nothing filled, nothing warned, no texture unit handed out.
\<close>

definition program_example :: program where
  "program_example =
     \<lparr>program_id = ''program-1'',
      opts = \<lparr>opts_vs = None, opts_fs = None, opts_defaultUniforms = None\<rparr>,
      handle = 7,
      attributeLocations = [(''instancePositions'', 0), (''positions'', 1)],
      attributeCount = 2,
      warn = (\<lambda>n. False),
      filledLocations = {},
      uniformSetters =
        [''sampler1'' \<mapsto> \<lparr>setter_location = 0, textureIndex = None\<rparr>,
         ''sampler2'' \<mapsto> \<lparr>setter_location = 1, textureIndex = None\<rparr>],
      uniformCount = 2,
      textureIndexCounter = 0,
      logged = []\<rparr>"

text \<open>The same program after a call of \<open>setBuffers\<close> that filled \<open>positions\<close>.\<close>

definition program_filled :: program where
  "program_filled = program_example\<lparr>filledLocations := {''positions''}\<rparr>"

definition SHADERS_DEFAULT_example :: default_shaders where
  "SHADERS_DEFAULT_example =
     \<lparr>default_vs = \<lparr>getName = ''default-vertex'', source_text = ''vs-default''\<rparr>,
      default_fs = \<lparr>getName = ''default-fragment'', source_text = ''fs-default''\<rparr>,
      default_defaultUniforms = [(''opacity'', [1])]\<rparr>"

definition uid_example :: "string \<Rightarrow> string" where
  "uid_example name = name @ ''-1''"

text \<open>
  A map with two index buffers under names that are no attributes, and the
  program and the context as \<open>setBuffers\<close> of the empty map leaves them when
  it is called on the example program in the context in use.
\<close>

definition two_index_buffers :: "(string \<times> buffer) list" where
  "two_index_buffers = [(''indices'', element_buffer 1), (''indices2'', element_buffer 2)]"

definition program_after_empty :: program where
  "program_after_empty =
     fst (snd (setBuffers program_example context_in_use (BufferMap []) default_options))"

definition context_after_empty :: gl_context where
  "context_after_empty =
     fst (snd (snd (setBuffers program_example context_in_use (BufferMap []) default_options)))"

declare unsetBuffersLoop.simps [simp del]

section \<open>Properties\<close>

subsection \<open>getParameter\<close>

lemma getParameter_WebGL2:
  "isWebGL2Context gl \<Longrightarrow> getParameter this gl pname = getProgramParameter gl (handle this) pname"
  by (simp add: getParameter_def)

lemma getParameter_WebGL1:
  "\<not> isWebGL2Context gl \<Longrightarrow>
   getParameter this gl pname =
     (if pname = GL_ACTIVE_UNIFORMS \<or> pname = GL_TRANSFORM_FEEDBACK_VARYINGS \<or>
         pname = GL_ACTIVE_UNIFORM_BLOCKS then GLint 0
      else if pname = GL_TRANSFORM_FEEDBACK_BUFFER_MODE then GLenum_value GL_SEPARATE_ATTRIBS
      else getProgramParameter gl (handle this) pname)"
  by (cases pname) (simp_all add: getParameter_def)

text \<open>
  C3. On a context that is not WebGL2, \<open>getParameter\<close> is to delegate the
  active-uniform count to the native query. It does not: on the example
  context the native query answers 3 for \<open>ACTIVE_UNIFORMS\<close>, and
  \<open>getParameter\<close> (hence \<open>getUniformCount\<close>) answers 0.
\<close>

theorem getParameter_ACTIVE_UNIFORMS_not_delegated:
  "\<not> isWebGL2Context context_example \<and>
   getProgramParameter context_example (handle program_example) GL_ACTIVE_UNIFORMS = GLint 3 \<and>
   getParameter program_example context_example GL_ACTIVE_UNIFORMS = GLint 0 \<and>
   getUniformCount program_example context_example = GLint 0"
  by (simp add: getParameter_def getUniformCount_def context_example_def)

subsection \<open>initialize\<close>

lemma initialize_defaultUniforms:
  "opts_defaultUniforms (opts (initialize D uid this args)) =
     (if or_default (arg_vs args) (default_vs D) = default_vs D \<or>
         (or_default (arg_fs args) (default_fs D) = default_fs D \<and>
          arg_defaultUniforms args = None)
      then Some (default_defaultUniforms D)
      else arg_defaultUniforms args)"
  by (simp add: initialize_def or_default_def Let_def split: option.splits)

text \<open>
  C8. A caller's explicit \<open>defaultUniforms\<close> is to be preserved. With the
  default vertex shader (no \<open>vs\<close> given), a fragment shader of the caller's
  own and an explicit \<open>defaultUniforms\<close>, \<open>initialize\<close> stores the built-in
  default uniforms instead of the caller's.
\<close>

theorem initialize_replaces_explicit_defaultUniforms:
  "opts_defaultUniforms (opts (initialize SHADERS_DEFAULT_example uid_example program_example
      \<lparr>arg_vs = None,
       arg_fs = Some \<lparr>getName = ''custom-fragment'', source_text = ''fs-custom''\<rparr>,
       arg_defaultUniforms = Some [(''opacity'', [0])]\<rparr>))
   = Some [(''opacity'', [1])]"
  by (simp add: initialize_def SHADERS_DEFAULT_example_def Let_def)

subsection \<open>draw\<close>

text \<open>
  C6, as the code has it. On a context that provides the
  \<open>ANGLE_instanced_arrays\<close> extension, or when \<open>isInstanced\<close> is not set:
  whatever the parameters, \<open>draw\<close> first activates the program and then
  issues exactly one draw command, the one of the dispatch table with the
  arguments in the order the table gives; nothing else reaches the context.
  Both instanced rows are methods of the extension object.
\<close>

theorem draw_uses_then_dispatches:
  assumes "ANGLE_instanced_arrays gl \<or> \<not> or_default (isInstanced args) False"
  shows "draw this gl args =
           (None,
            gl\<lparr>commands := commands gl @
                 [UseProgram (handle this),
                  dispatch_table
                    (or_default (isInstanced args) False)
                    (or_default (isIndexed args) False)
                    (or_default (drawMode args) GL_TRIANGLES)
                    (vertexCount args)
                    (or_default (offset args) 0)
                    (or_default (indexType args) GL_UNSIGNED_SHORT)
                    (or_default (instanceCount args) 0)]\<rparr>)"
  using assms
  by (cases "or_default (isInstanced args) False"; cases "or_default (isIndexed args) False")
     (simp_all add: draw_def use_def issue_def Let_def)

theorem draw_uses_then_dispatches_witness:
  "ANGLE_instanced_arrays context_example \<and>
   draw program_example context_example
     \<lparr>drawMode = None, vertexCount = 6, offset = None, isIndexed = Some False,
      indexType = None, isInstanced = Some True, instanceCount = Some 100\<rparr>
   = (None,
      context_example\<lparr>commands :=
        [UseProgram 7, DrawArraysInstancedANGLE GL_TRIANGLES 0 6 100]\<rparr>)"
proof -
  have ext: "ANGLE_instanced_arrays context_example"
    by (simp add: context_example_def)
  then have "ANGLE_instanced_arrays context_example \<or>
      \<not> or_default (isInstanced
          \<lparr>drawMode = None, vertexCount = 6, offset = None, isIndexed = Some False,
           indexType = None, isInstanced = Some True, instanceCount = Some 100\<rparr>) False"
    by simp
  from draw_uses_then_dispatches[OF this, of program_example] ext show ?thesis
    by (simp add: or_default_def program_example_def context_example_def)
qed

lemma draw_without_extension:
  "\<not> ANGLE_instanced_arrays gl \<Longrightarrow> or_default (isInstanced args) False \<Longrightarrow>
   draw this gl args = (Some TypeError, gl\<lparr>commands := commands gl @ [UseProgram (handle this)]\<rparr>)"
  by (simp add: draw_def use_def issue_def Let_def)

text \<open>
  C6, as stated, fails: on a context without the extension the instanced draw
  of six vertices and a hundred instances activates the program, throws a
  TypeError and issues no draw command.
\<close>

theorem draw_instanced_without_extension:
  "draw program_example context_webgl2
     \<lparr>drawMode = None, vertexCount = 6, offset = None, isIndexed = Some False,
      indexType = None, isInstanced = Some True, instanceCount = Some 100\<rparr>
   = (Some TypeError, context_webgl2\<lparr>commands := [UseProgram 7]\<rparr>)"
  by (simp add: draw_def use_def issue_def or_default_def Let_def
        program_example_def context_webgl2_def context_example_def)

subsection \<open>unsetBuffers\<close>

lemma unsetBuffersLoop_enabled:
  "attrib_enabled (unsetBuffersLoop i len gl) =
     (\<lambda>j. if i \<le> j \<and> j < len then False else attrib_enabled gl j)"
proof (induction i len gl rule: unsetBuffersLoop.induct)
  case (1 i len gl)
  show ?case
  proof (cases "i < len")
    case True
    then show ?thesis
      using "1.IH"
      by (subst unsetBuffersLoop.simps) (auto simp: VertexAttributes_disable_def fun_eq_iff)
  next
    case False
    then show ?thesis
      by (subst unsetBuffersLoop.simps) (auto simp: fun_eq_iff)
  qed
qed

lemma unsetBuffersLoop_frame:
  "\<exists>e. unsetBuffersLoop i len gl = gl\<lparr>attrib_enabled := e\<rparr>"
proof (induction i len gl rule: unsetBuffersLoop.induct)
  case (1 i len gl)
  show ?case
  proof (cases "i < len")
    case True
    then obtain e where
      "unsetBuffersLoop (Suc i) len (VertexAttributes_disable gl i) =
         (VertexAttributes_disable gl i)\<lparr>attrib_enabled := e\<rparr>"
      using "1.IH" by blast
    then have "unsetBuffersLoop i len gl = gl\<lparr>attrib_enabled := e\<rparr>"
      using True by (subst unsetBuffersLoop.simps) (simp add: VertexAttributes_disable_def)
    then show ?thesis by blast
  next
    case False
    then have "unsetBuffersLoop i len gl = gl\<lparr>attrib_enabled := attrib_enabled gl\<rparr>"
      by (subst unsetBuffersLoop.simps) simp
    then show ?thesis by blast
  qed
qed

lemma unsetBuffersLoop_others:
  "attrib_buffer (unsetBuffersLoop i len gl) = attrib_buffer gl \<and>
   attrib_divisor (unsetBuffersLoop i len gl) = attrib_divisor gl \<and>
   bound_buffer (unsetBuffersLoop i len gl) = bound_buffer gl"
proof -
  obtain e where "unsetBuffersLoop i len gl = gl\<lparr>attrib_enabled := e\<rparr>"
    using unsetBuffersLoop_frame by blast
  then show ?thesis by simp
qed

text \<open>
  C9. Whatever the state of the context, \<open>unsetBuffers\<close> leaves every slot
  from 1 to \<open>attributeCount - 1\<close> disabled, leaves the enabled state of every
  other slot as it was, leaves slot 0 untouched (enabled state, buffer and
  divisor), and leaves no buffer bound to the element-array target.
\<close>

theorem unsetBuffers_disables_slots:
  "attrib_enabled (unsetBuffers this gl) =
     (\<lambda>i. if 1 \<le> i \<and> i < attributeCount this then False else attrib_enabled gl i) \<and>
   attrib_enabled (unsetBuffers this gl) 0 = attrib_enabled gl 0 \<and>
   attrib_buffer (unsetBuffers this gl) 0 = attrib_buffer gl 0 \<and>
   attrib_divisor (unsetBuffers this gl) 0 = attrib_divisor gl 0 \<and>
   bound_buffer (unsetBuffers this gl) GL_ELEMENT_ARRAY_BUFFER = None"
  using unsetBuffersLoop_enabled[of 1 "attributeCount this" gl]
    unsetBuffersLoop_others[of 1 "attributeCount this" gl]
  by (simp add: unsetBuffers_def bindBuffer_null_def)

theorem unsetBuffers_disables_slots_witness:
  "attrib_enabled context_in_use 0 \<and> attrib_enabled context_in_use 1 \<and>
   bound_buffer context_in_use GL_ELEMENT_ARRAY_BUFFER = Some (element_buffer 3) \<and>
   attrib_enabled (unsetBuffers program_example context_in_use) 0 \<and>
   \<not> attrib_enabled (unsetBuffers program_example context_in_use) 1 \<and>
   bound_buffer (unsetBuffers program_example context_in_use) GL_ELEMENT_ARRAY_BUFFER = None"
  using unsetBuffers_disables_slots[of program_example context_in_use]
  by (simp add: program_example_def context_in_use_def)

text \<open>
  C10. \<open>unsetBuffers\<close> changes the instancing divisor of no slot: for every
  slot the divisor after the call is the divisor before it.
\<close>

theorem unsetBuffers_keeps_divisors:
  "attrib_divisor (unsetBuffers this gl) i = attrib_divisor gl i"
  using unsetBuffersLoop_others[of 1 "attributeCount this" gl]
  by (simp add: unsetBuffers_def bindBuffer_null_def)

theorem unsetBuffers_keeps_divisors_witness:
  "attrib_divisor context_in_use 0 = 1 \<and>
   attrib_divisor (unsetBuffers program_example context_in_use) 0 = 1"
  using unsetBuffers_keeps_divisors[of program_example context_in_use 0]
  by (simp add: context_in_use_def)

subsection \<open>setBuffers\<close>

lemmas setBuffers_eval =
  setBuffers_def default_options_def sortBuffersByLocation_def
        program_example_def program_filled_def context_example_def array_buffer_def
        element_buffer_def array_store_def truthy_def VertexAttributes_enable_def
        VertexAttributes_disable_def VertexAttributes_setBuffer_def
        VertexAttributes_setDivisor_def bindElements_def Buffer_bind_def checkBuffers_def
        log_warn_def numeral_2_eq_2

text \<open>
  C1. After \<open>setBuffers\<close> the flag \<open>isInstanced\<close> is to be true as soon as
  one bound buffer is instanced. The loop assigns the flag at every bound slot,
  so the buffer of the last bound slot decides: with an instanced buffer at
  slot 0 and a plain one at slot 1 the call succeeds, slot 0 is enabled with
  the instanced buffer and divisor 1, and \<open>isInstanced\<close> is false.
\<close>

theorem setBuffers_isInstanced_last_slot_decides:
  "(case setBuffers program_example context_example
           (BufferMap [(''instancePositions'', array_buffer 1 True),
                       (''positions'', array_buffer 2 False)])
           default_options of
      (err, this, gl, dp) \<Rightarrow>
        err = None \<and> attrib_enabled gl 0 \<and>
        attrib_buffer gl 0 = Some (array_buffer 1 True) \<and>
        instanced (layout (array_buffer 1 True)) \<and>
        attrib_divisor gl 0 = 1 \<and>
        dp_isInstanced dp = Some False)"
  by (simp add: setBuffers_eval)

text \<open>
  C4. A second buffer that declares the element-array target is to be a hard
  error. The test for an index buffer found earlier is a truthiness test of
  its name, which the empty name fails: with an index buffer under the empty
  name followed by a second index buffer the call raises nothing and binds the
  second one.
\<close>

theorem setBuffers_second_elements_after_empty_name:
  "(case setBuffers program_example context_example
           (BufferMap [([], element_buffer 1), (''indices'', element_buffer 2)])
           default_options of
      (err, this, gl, dp) \<Rightarrow>
        err = None \<and>
        bound_buffer gl GL_ELEMENT_ARRAY_BUFFER = Some (element_buffer 2) \<and>
        dp_isIndexed dp = Some True)"
  by (simp add: setBuffers_eval)

lemma sortBuffersLoop_frame:
  "filledLocations (snd (sortBuffersLoop bs acc this)) = filledLocations this \<and>
   attributeLocations (snd (sortBuffersLoop bs acc this)) = attributeLocations this \<and>
   attributeCount (snd (sortBuffersLoop bs acc this)) = attributeCount this"
proof (induction bs arbitrary: acc this)
  case Nil
  show ?case by simp
next
  case (Cons a bs)
  obtain bufferName b where a: "a = (bufferName, b)" by (cases a)
  show ?case
    unfolding a by (simp split: option.splits add: Cons.IH log_warn_def)
qed

lemma sortBuffersLoop_fst:
  "attributeLocations this = attributeLocations that \<Longrightarrow>
   fst (sortBuffersLoop bs acc this) = fst (sortBuffersLoop bs acc that)"
proof (induction bs arbitrary: acc this that)
  case Nil
  show ?case by simp
next
  case (Cons a bs)
  obtain bufferName b where a: "a = (bufferName, b)" by (cases a)
  have r: "fst (sortBuffersLoop bs acc' p) = fst (sortBuffersLoop bs acc' q)"
    if "attributeLocations p = attributeLocations this"
      and "attributeLocations q = attributeLocations that" for acc' p q
    using Cons.IH[of p q acc'] Cons.prems that by simp
  show ?case
  proof (cases "map_of (attributeLocations this) bufferName")
    case None
    then have "map_of (attributeLocations that) bufferName = None"
      using Cons.prems by simp
    with None show ?thesis
      unfolding a using Cons.prems
      by (simp add: log_warn_def) (intro conjI impI r; simp)
  next
    case (Some location)
    then have "map_of (attributeLocations that) bufferName = Some location"
      using Cons.prems by simp
    with Some show ?thesis
      unfolding a using Cons.prems
      by simp (intro conjI impI r; simp)
  qed
qed

lemma array_store_length: "length xs \<le> length (array_store xs i v)"
  by (simp add: array_store_def)

lemma sortBuffersLoop_length:
  "fst (sortBuffersLoop bs acc this) = Inr r \<Longrightarrow> length (locations acc) \<le> length (locations r)"
proof (induction bs arbitrary: acc this)
  case Nil
  then show ?case by simp
next
  case (Cons a bs)
  obtain bufferName b where a: "a = (bufferName, b)" by (cases a)
  show ?case
  proof (cases "map_of (attributeLocations this) bufferName")
    case None
    then show ?thesis
      using Cons.prems Cons.IH unfolding a
      by (fastforce split: if_splits)
  next
    case (Some location)
    then have "fst (sortBuffersLoop bs (acc\<lparr>locations := array_store (locations acc) location bufferName\<rparr>) this) = Inr r"
      using Cons.prems unfolding a by (simp split: if_splits)
    from Cons.IH[OF this] show ?thesis
      using array_store_length[of "locations acc" location bufferName] by simp
  qed
qed

lemma checkBuffersLoop_frame:
  "filledLocations (checkBuffersLoop als this) = filledLocations this \<and>
   attributeLocations (checkBuffersLoop als this) = attributeLocations this \<and>
   attributeCount (checkBuffersLoop als this) = attributeCount this"
proof (induction als arbitrary: this)
  case Nil
  show ?case by simp
next
  case (Cons a als)
  obtain attributeName location where a: "a = (attributeName, location)" by (cases a)
  show ?case
    unfolding a by (simp add: Cons.IH log_warn_def)
qed

lemma sortBuffersLoop_error_kind:
  "fst (sortBuffersLoop bs acc this) = Inl e \<Longrightarrow> binding_conflict e"
proof (induction bs arbitrary: acc this)
  case Nil
  then show ?case by simp
next
  case (Cons a bs)
  obtain bufferName b where a: "a = (bufferName, b)" by (cases a)
  show ?case
    using Cons.prems unfolding a
    by (auto simp: binding_conflict_def split: option.splits if_splits dest: Cons.IH)
qed

lemma sortBuffersLoop_designated:
  assumes "truthy (elements acc)"
    and "(n, b) \<in> set bs" and "target b = GL_ELEMENT_ARRAY_BUFFER"
  shows "\<exists>e. fst (sortBuffersLoop bs acc this) = Inl e"
  using assms
proof (induction bs arbitrary: acc this)
  case Nil
  then show ?case by simp
next
  case (Cons a bs)
  obtain bufferName b' where a: "a = (bufferName, b')" by (cases a)
  show ?case
  proof (cases "target b' = GL_ELEMENT_ARRAY_BUFFER")
    case True
    then show ?thesis
      unfolding a using Cons.prems(1) by (simp split: option.splits)
  next
    case False
    then have "(n, b) \<in> set bs"
      using Cons.prems a by auto
    then have "\<exists>e. fst (sortBuffersLoop bs acc' p) = Inl e" if "truthy (elements acc')" for acc' p
      using Cons.IH[of acc' p] that Cons.prems(3) by simp
    then show ?thesis
      unfolding a using False Cons.prems(1) by (simp split: option.splits)
  qed
qed

lemma sortBuffersLoop_two_elements:
  assumes "(n1, b1) \<in> set bs" and "(n2, b2) \<in> set bs" and "n1 \<noteq> n2"
    and "target b1 = GL_ELEMENT_ARRAY_BUFFER" and "target b2 = GL_ELEMENT_ARRAY_BUFFER"
    and "n1 \<noteq> []" and "n2 \<noteq> []"
  shows "\<exists>e. fst (sortBuffersLoop bs acc this) = Inl e"
  using assms(1,2)
proof (induction bs arbitrary: acc this)
  case Nil
  then show ?case by simp
next
  case (Cons a bs)
  obtain bufferName b where a: "a = (bufferName, b)" by (cases a)
  show ?case
  proof (cases "a = (n1, b1) \<or> a = (n2, b2)")
    case True
    then obtain n' b' where other: "(n', b') \<in> set bs" "target b' = GL_ELEMENT_ARRAY_BUFFER"
      using Cons.prems assms(3,4,5) by auto
    from True have hd: "target b = GL_ELEMENT_ARRAY_BUFFER" "bufferName \<noteq> []"
      using a assms(4-7) by auto
    have "\<exists>e. fst (sortBuffersLoop bs (acc\<lparr>elements := Some bufferName\<rparr>) this) = Inl e"
      by (rule sortBuffersLoop_designated[OF _ other]) (simp add: truthy_def hd)
    then show ?thesis
      unfolding a using hd by (simp split: option.splits)
  next
    case False
    then have "(n1, b1) \<in> set bs" "(n2, b2) \<in> set bs"
      using Cons.prems by auto
    then have "\<exists>e. fst (sortBuffersLoop bs acc' p) = Inl e" for acc' p
      by (rule Cons.IH)
    then show ?thesis
      unfolding a by (simp split: option.splits)
  qed
qed

text \<open>
  C2, as the code has it. When two buffers under different, non-empty names
  both declare the element-array target, \<open>setBuffers\<close> with the default
  options raises a binding-conflict error, hands the context back unchanged
  and with the draw parameters reset, and leaves \<open>filledLocations\<close> empty:
  the default \<open>clear\<close> empties it before the buffers are sorted.
\<close>

theorem setBuffers_two_element_buffers:
  assumes "(n1, b1) \<in> set buffers" and "(n2, b2) \<in> set buffers" and "n1 \<noteq> n2"
    and "target b1 = GL_ELEMENT_ARRAY_BUFFER" and "target b2 = GL_ELEMENT_ARRAY_BUFFER"
    and "n1 \<noteq> []" and "n2 \<noteq> []"
  shows "\<exists>e this'. setBuffers this gl (BufferMap buffers) default_options =
            (Some e, this', gl,
             \<lparr>dp_isInstanced = Some False, dp_isIndexed = Some False, dp_indexType = None\<rparr>) \<and>
          binding_conflict e \<and> filledLocations this' = {}"
proof -
  let ?P = "this\<lparr>filledLocations := {}\<rparr>"
  let ?S = "sortBuffersLoop buffers
              \<lparr>locations = replicate (attributeCount this) None, elements = None\<rparr> ?P"
  obtain e where e: "fst ?S = Inl e"
    using sortBuffersLoop_two_elements[OF assms] by blast
  then have S: "?S = (Inl e, snd ?S)"
    by (simp add: prod_eq_iff)
  have "setBuffers this gl (BufferMap buffers) default_options =
          (Some e, snd ?S, gl,
           \<lparr>dp_isInstanced = Some False, dp_isIndexed = Some False, dp_indexType = None\<rparr>)"
    using e
    by (auto simp: setBuffers_def default_options_def sortBuffersByLocation_def Let_def
          split: prod.splits)
  moreover have "binding_conflict e"
    using e by (rule sortBuffersLoop_error_kind)
  moreover have "filledLocations (snd ?S) = {}"
    by (simp add: sortBuffersLoop_frame)
  ultimately show ?thesis by blast
qed

theorem setBuffers_two_element_buffers_witness:
  "(''indices'', element_buffer 1) \<in> set [(''indices'', element_buffer 1), (''indices2'', element_buffer 2)] \<and>
   (''indices2'', element_buffer 2) \<in> set [(''indices'', element_buffer 1), (''indices2'', element_buffer 2)] \<and>
   target (element_buffer 1) = GL_ELEMENT_ARRAY_BUFFER \<and>
   target (element_buffer 2) = GL_ELEMENT_ARRAY_BUFFER \<and>
   (\<exists>e this'.
      setBuffers program_filled context_in_use
        (BufferMap [(''indices'', element_buffer 1), (''indices2'', element_buffer 2)])
        default_options =
        (Some e, this', context_in_use,
         \<lparr>dp_isInstanced = Some False, dp_isIndexed = Some False, dp_indexType = None\<rparr>) \<and>
      binding_conflict e \<and> filledLocations this' = {})"
proof -
  have m: "(''indices'', element_buffer 1) \<in> set [(''indices'', element_buffer 1), (''indices2'', element_buffer 2)]"
      "(''indices2'', element_buffer 2) \<in> set [(''indices'', element_buffer 1), (''indices2'', element_buffer 2)]"
    by simp_all
  have t: "target (element_buffer 1) = GL_ELEMENT_ARRAY_BUFFER"
      "target (element_buffer 2) = GL_ELEMENT_ARRAY_BUFFER"
    by (simp_all add: element_buffer_def)
  have n: "''indices'' \<noteq> ''indices2''" "''indices'' \<noteq> []" "''indices2'' \<noteq> []"
    by simp_all
  from setBuffers_two_element_buffers[OF m n(1) t n(2,3), of program_filled context_in_use] m t
  show ?thesis by blast
qed

text \<open>
  C2, as stated, fails: after the call that raises the binding-conflict error,
  \<open>filledLocations\<close> is not what it was before the call.
\<close>

theorem setBuffers_conflict_empties_filledLocations:
  "fst (setBuffers program_filled context_example
          (BufferMap [(''indices'', element_buffer 1), (''indices2'', element_buffer 2)])
          default_options) = Some (DuplicateElementArrayBuffer ''indices2'') \<and>
   filledLocations program_filled = {''positions''} \<and>
   filledLocations (fst (snd (setBuffers program_filled context_example
          (BufferMap [(''indices'', element_buffer 1), (''indices2'', element_buffer 2)])
          default_options))) = {} \<and>
   filledLocations (fst (snd (setBuffers program_filled context_example
          (BufferMap [(''indices'', element_buffer 1), (''indices2'', element_buffer 2)])
          default_options))) \<noteq> filledLocations program_filled"
  by (simp add: setBuffers_eval)


lemma bindLocations_related:
  assumes "filledLocations p = filledLocations q"
    and "attrib_buffer g = attrib_buffer h"
    and "attrib_divisor g = attrib_divisor h"
    and "bound_buffer g = bound_buffer h"
    and "\<And>j. j < i \<or> i + length locs \<le> j \<Longrightarrow> attrib_enabled g j = attrib_enabled h j"
  shows "filledLocations (fst (bindLocations bs locs i (p, g, dp))) =
           filledLocations (fst (bindLocations bs locs i (q, h, dp))) \<and>
         snd (snd (bindLocations bs locs i (p, g, dp))) =
           snd (snd (bindLocations bs locs i (q, h, dp))) \<and>
         bound_state (fst (snd (bindLocations bs locs i (p, g, dp)))) =
           bound_state (fst (snd (bindLocations bs locs i (q, h, dp))))"
  using assms
proof (induction locs arbitrary: i p q g h dp)
  case Nil
  have "attrib_enabled g j = attrib_enabled h j" for j
    using Nil.prems(5)[of j] by (cases "j < i") auto
  then have "attrib_enabled g = attrib_enabled h"
    by (simp add: fun_eq_iff)
  with Nil show ?case by (simp add: bound_state_def)
next
  case (Cons entry rest)
  let ?name = "case entry of None \<Rightarrow> ''undefined'' | Some n \<Rightarrow> n"
  show ?case
  proof (cases "map_of bs ?name")
    case None
    have step: "bindLocations bs (entry # rest) i (x, y, dp) =
                bindLocations bs rest (Suc i) (x, VertexAttributes_disable y i, dp)" for x y
      using None by simp
    have en: "attrib_enabled (VertexAttributes_disable g i) j =
              attrib_enabled (VertexAttributes_disable h i) j"
      if "j < Suc i \<or> Suc i + length rest \<le> j" for j
      using Cons.prems(5)[of j] that by (auto simp: VertexAttributes_disable_def)
    show ?thesis
      unfolding step
      by (rule Cons.IH) (use Cons.prems en in \<open>simp_all add: VertexAttributes_disable_def\<close>)
  next
    case (Some b)
    let ?f = "\<lambda>y. VertexAttributes_setDivisor
                 (VertexAttributes_setBuffer (VertexAttributes_enable y i) i b) i
                 (if instanced (layout b) then 1 else 0)"
    have step: "bindLocations bs (entry # rest) i (x, y, dp) =
                bindLocations bs rest (Suc i)
                  (x\<lparr>filledLocations := insert ?name (filledLocations x)\<rparr>, ?f y,
                   dp\<lparr>dp_isInstanced := Some (instanced (layout b))\<rparr>)" for x y
      using Some by (simp add: Let_def)
    have en: "attrib_enabled (?f g) j = attrib_enabled (?f h) j"
      if "j < Suc i \<or> Suc i + length rest \<le> j" for j
      using Cons.prems(5)[of j] that
      by (auto simp: VertexAttributes_enable_def VertexAttributes_setBuffer_def
            VertexAttributes_setDivisor_def)
    show ?thesis
      unfolding step
      by (rule Cons.IH)
         (use Cons.prems en in \<open>simp_all add: VertexAttributes_enable_def
            VertexAttributes_setBuffer_def VertexAttributes_setDivisor_def\<close>)
  qed
qed

lemma bindLocations_no_buffers:
  "bindLocations [] locs i (p, g, dp) =
     (p, g\<lparr>attrib_enabled := (\<lambda>j. if i \<le> j \<and> j < i + length locs then False
                                    else attrib_enabled g j)\<rparr>, dp)"
proof (induction locs arbitrary: i g)
  case Nil
  show ?case by simp
next
  case (Cons entry rest)
  define A where "A = (\<lambda>j. if Suc i \<le> j \<and> j < Suc i + length rest then False
                            else attrib_enabled (VertexAttributes_disable g i) j)"
  define B where "B = (\<lambda>j. if i \<le> j \<and> j < i + length (entry # rest) then False
                            else attrib_enabled g j)"
  have AB: "A = B"
    by (auto simp: A_def B_def fun_eq_iff VertexAttributes_disable_def)
  have "bindLocations [] (entry # rest) i (p, g, dp) =
        bindLocations [] rest (Suc i) (p, VertexAttributes_disable g i, dp)"
    by simp
  also have "\<dots> = (p, (VertexAttributes_disable g i)\<lparr>attrib_enabled := A\<rparr>, dp)"
    unfolding A_def by (rule Cons.IH)
  also have "(VertexAttributes_disable g i)\<lparr>attrib_enabled := A\<rparr> = g\<lparr>attrib_enabled := B\<rparr>"
    unfolding AB by (simp add: VertexAttributes_disable_def)
  finally show ?case unfolding B_def .
qed

lemma bindElements_related:
  assumes "bound_state g = bound_state h"
  shows "(case bindElements bs e (g, dp) of
            Inl x \<Rightarrow> bindElements bs e (h, dp) = Inl x
          | Inr (g', dp') \<Rightarrow>
              (case bindElements bs e (h, dp) of
                 Inl x \<Rightarrow> False
               | Inr (h', dp'') \<Rightarrow> dp' = dp'' \<and> bound_state g' = bound_state h'))"
  using assms
  by (auto simp: bindElements_def bound_state_def Buffer_bind_def split: option.splits)

lemma checkBuffers_frame:
  "filledLocations (checkBuffers this) = filledLocations this \<and>
   attributeLocations (checkBuffers this) = attributeLocations this \<and>
   attributeCount (checkBuffers this) = attributeCount this"
  by (simp add: checkBuffers_def checkBuffersLoop_frame)

text \<open>
  C7, as the code has it. For every buffer map, every program state and every
  context state: \<open>setBuffers\<close> of the empty map succeeds, and
  \<open>setBuffers\<close> of the map after it ends as \<open>setBuffers\<close> of the map alone
  does, with the same outcome (the same error, if any), the same
  \<open>filledLocations\<close> and the same draw parameters. The bound state of the
  context is the same whenever the call succeeds, and also when it raises
  provided the program's slots were disabled to begin with: a call that
  raises in sorting leaves the context as it found it, so the slots that the
  call with the empty map disabled stay disabled on one path only.
\<close>

theorem setBuffers_empty_then_map:
  "case setBuffers this gl (BufferMap []) default_options of (e1, this1, gl1, dp1) \<Rightarrow>
     (case setBuffers this1 gl1 (BufferMap buffers) default_options of (e2, this2, gl2, dp2) \<Rightarrow>
        (case setBuffers this gl (BufferMap buffers) default_options of (e, this', gl', dp') \<Rightarrow>
           e1 = None \<and> e2 = e \<and> filledLocations this2 = filledLocations this' \<and> dp2 = dp' \<and>
           (e = None \<or> (\<forall>i<attributeCount this. \<not> attrib_enabled gl i)
              \<longrightarrow> bound_state gl2 = bound_state gl')))"
proof -
  define n where "n = attributeCount this"
  define P where "P = this\<lparr>filledLocations := {}\<rparr>"
  define init where "init = \<lparr>locations = replicate n (None :: string option), elements = None\<rparr>"
  define dp0 where "dp0 = \<lparr>dp_isInstanced = Some False, dp_isIndexed = Some False, dp_indexType = None\<rparr>"
  define G1 where "G1 = gl\<lparr>attrib_enabled := (\<lambda>j. if j < n then False else attrib_enabled gl j)\<rparr>"
  define T1 where "T1 = checkBuffers P"
  define T1' where "T1' = T1\<lparr>filledLocations := {}\<rparr>"
  define S where "S = sortBuffersLoop buffers init P"
  define S2 where "S2 = sortBuffersLoop buffers init T1'"
  have first: "setBuffers this gl (BufferMap []) default_options = (None, T1, G1, dp0)"
    by (simp add: setBuffers_def default_options_def sortBuffersByLocation_def
          bindLocations_no_buffers bindElements_def truthy_def
          n_def P_def dp0_def G1_def T1_def)
  have T1: "attributeLocations T1' = attributeLocations P" "attributeCount T1' = n"
    by (simp_all add: T1'_def T1_def checkBuffers_frame P_def n_def)
  have fstS: "fst S2 = fst S"
    unfolding S_def S2_def by (rule sortBuffersLoop_fst) (rule T1)
  have filled0: "filledLocations (snd S) = {}" "filledLocations (snd S2) = {}"
    by (simp_all add: S_def S2_def sortBuffersLoop_frame P_def T1'_def)
  have G1_fields: "attrib_buffer G1 = attrib_buffer gl" "attrib_divisor G1 = attrib_divisor gl"
      "bound_buffer G1 = bound_buffer gl"
    by (simp_all add: G1_def)
  have second: "setBuffers T1 G1 (BufferMap buffers) default_options =
      (case S2 of
         (Inl e, t2) \<Rightarrow> (Some e, t2, G1, dp0)
       | (Inr r, t2) \<Rightarrow>
           (case bindLocations buffers (locations r) 0 (t2, G1, dp0) of
              (t3, g3, dp3) \<Rightarrow>
                (case bindElements buffers (elements r) (g3, dp3) of
                   Inl e \<Rightarrow> (Some e, t3, g3, dp3)
                 | Inr (g4, dp4) \<Rightarrow> (None, checkBuffers t3, g4, dp4))))"
    using T1(2)
    by (simp add: setBuffers_def default_options_def sortBuffersByLocation_def
          S2_def init_def T1'_def dp0_def Let_def split: prod.splits sum.splits)
  have single: "setBuffers this gl (BufferMap buffers) default_options =
      (case S of
         (Inl e, t2) \<Rightarrow> (Some e, t2, gl, dp0)
       | (Inr r, t2) \<Rightarrow>
           (case bindLocations buffers (locations r) 0 (t2, gl, dp0) of
              (t3, g3, dp3) \<Rightarrow>
                (case bindElements buffers (elements r) (g3, dp3) of
                   Inl e \<Rightarrow> (Some e, t3, g3, dp3)
                 | Inr (g4, dp4) \<Rightarrow> (None, checkBuffers t3, g4, dp4))))"
    by (simp add: setBuffers_def default_options_def sortBuffersByLocation_def
          S_def init_def P_def dp0_def n_def Let_def split: prod.splits sum.splits)
  show ?thesis
  proof (cases "fst S")
    case (Inl e)
    then have S: "S = (Inl e, snd S)" and S2: "S2 = (Inl e, snd S2)"
      using fstS by (simp_all add: prod_eq_iff)
    have clean: "bound_state G1 = bound_state gl"
      if "\<forall>i<attributeCount this. \<not> attrib_enabled gl i"
    proof -
      have "attrib_enabled G1 = attrib_enabled gl"
        using that by (auto simp: G1_def n_def fun_eq_iff)
      then show ?thesis by (simp add: bound_state_def G1_fields)
    qed
    show ?thesis
      unfolding first
      apply (simp only: prod.case second single)
      apply (subst S2, subst S)
      using filled0 clean by simp
  next
    case (Inr r)
    then have S: "S = (Inr r, snd S)" and S2: "S2 = (Inr r, snd S2)"
      using fstS by (simp_all add: prod_eq_iff)
    have len: "n \<le> length (locations r)"
      using sortBuffersLoop_length[of buffers init P r] Inr
      by (simp add: S_def init_def)
    obtain t3 g3 d3 where B: "bindLocations buffers (locations r) 0 (snd S, gl, dp0) = (t3, g3, d3)"
      by (metis prod_cases3)
    obtain u3 h3 d3' where B2: "bindLocations buffers (locations r) 0 (snd S2, G1, dp0) = (u3, h3, d3')"
      by (metis prod_cases3)
    have en: "attrib_enabled G1 j = attrib_enabled gl j" if "j < 0 \<or> 0 + length (locations r) \<le> j" for j
      using that len by (simp add: G1_def)
    have rel: "filledLocations u3 = filledLocations t3 \<and> d3' = d3 \<and> bound_state h3 = bound_state g3"
      using bindLocations_related[of "snd S2" "snd S" G1 gl 0 "locations r" buffers dp0,
              OF _ G1_fields en]
      by (simp add: filled0 B B2)
    then have d: "d3' = d3" and bs: "bound_state h3 = bound_state g3"
      and fl: "filledLocations u3 = filledLocations t3" by simp_all
    show ?thesis
      unfolding first
      apply (simp only: prod.case second single)
      apply (subst S2, subst S)
      using bindElements_related[OF bs, of buffers "elements r" d3] fl bs
      by (auto simp: B B2 d checkBuffers_frame split: sum.splits)
  qed
qed

theorem setBuffers_empty_then_map_witness:
  "(case setBuffers program_example context_in_use (BufferMap []) default_options of
      (e1, this1, gl1, dp1) \<Rightarrow>
        (case setBuffers this1 gl1
                (BufferMap [(''indices'', element_buffer 4),
                            (''instancePositions'', array_buffer 5 True)])
                default_options of
           (e2, this2, gl2, dp2) \<Rightarrow>
             (case setBuffers program_example context_in_use
                     (BufferMap [(''indices'', element_buffer 4),
                                 (''instancePositions'', array_buffer 5 True)])
                     default_options of
                (e, this', gl', dp') \<Rightarrow>
                  e = None \<and> e2 = None \<and>
                  filledLocations this2 = filledLocations this' \<and> dp2 = dp' \<and>
                  bound_state gl2 = bound_state gl')))"
proof -
  have "fst (setBuffers program_example context_in_use
               (BufferMap [(''indices'', element_buffer 4),
                           (''instancePositions'', array_buffer 5 True)])
               default_options) = None"
    by (simp add: setBuffers_eval context_in_use_def)
  with setBuffers_empty_then_map[of program_example context_in_use
         "[(''indices'', element_buffer 4), (''instancePositions'', array_buffer 5 True)]"]
  show ?thesis
    by (auto split: prod.splits)
qed

lemma program_example_freshly_linked: "freshly_linked program_example"
  by (simp add: freshly_linked_def unit_of_def program_example_def)

text \<open>
  C7, as stated, fails. The example program is freshly linked; in the context
  in use, where slots 0 and 1 are enabled, the map with two index buffers
  makes both paths raise the same error, but after the empty map and then the
  map slot 1 is disabled, and after the map alone it is still enabled: the
  bound states differ.
\<close>

theorem setBuffers_empty_then_conflict_differs:
  "fst (setBuffers program_example context_in_use (BufferMap []) default_options) = None \<and>
   fst (setBuffers program_after_empty context_after_empty
          (BufferMap two_index_buffers) default_options)
     = Some (DuplicateElementArrayBuffer ''indices2'') \<and>
   fst (setBuffers program_example context_in_use
          (BufferMap two_index_buffers) default_options)
     = Some (DuplicateElementArrayBuffer ''indices2'') \<and>
   \<not> attrib_enabled
       (fst (snd (snd (setBuffers program_after_empty context_after_empty
                         (BufferMap two_index_buffers) default_options)))) 1 \<and>
   attrib_enabled
     (fst (snd (snd (setBuffers program_example context_in_use
                       (BufferMap two_index_buffers) default_options)))) 1 \<and>
   bound_state
     (fst (snd (snd (setBuffers program_after_empty context_after_empty
                       (BufferMap two_index_buffers) default_options))))
     \<noteq> bound_state
         (fst (snd (snd (setBuffers program_example context_in_use
                           (BufferMap two_index_buffers) default_options))))"
proof -
  have ok: "fst (setBuffers program_example context_in_use (BufferMap []) default_options) = None"
    by (simp add: setBuffers_eval context_in_use_def)
  have two: "fst (setBuffers program_after_empty context_after_empty
                    (BufferMap two_index_buffers) default_options)
               = Some (DuplicateElementArrayBuffer ''indices2'')"
    by (simp add: setBuffers_eval context_in_use_def two_index_buffers_def
          program_after_empty_def context_after_empty_def)
  have one: "fst (setBuffers program_example context_in_use
                    (BufferMap two_index_buffers) default_options)
               = Some (DuplicateElementArrayBuffer ''indices2'')"
    by (simp add: setBuffers_eval context_in_use_def two_index_buffers_def)
  have off: "\<not> attrib_enabled
       (fst (snd (snd (setBuffers program_after_empty context_after_empty
                         (BufferMap two_index_buffers) default_options)))) 1"
    by (simp add: setBuffers_eval context_in_use_def two_index_buffers_def
          program_after_empty_def context_after_empty_def)
  have on: "attrib_enabled
     (fst (snd (snd (setBuffers program_example context_in_use
                       (BufferMap two_index_buffers) default_options)))) 1"
    by (simp add: setBuffers_eval context_in_use_def two_index_buffers_def)
  from off on have "attrib_enabled
       (fst (snd (snd (setBuffers program_after_empty context_after_empty
                         (BufferMap two_index_buffers) default_options))))
     \<noteq> attrib_enabled
         (fst (snd (snd (setBuffers program_example context_in_use
                           (BufferMap two_index_buffers) default_options))))"
    by metis
  then have diff: "bound_state
     (fst (snd (snd (setBuffers program_after_empty context_after_empty
                       (BufferMap two_index_buffers) default_options))))
     \<noteq> bound_state
         (fst (snd (snd (setBuffers program_example context_in_use
                           (BufferMap two_index_buffers) default_options))))"
    by (simp add: bound_state_def)
  from ok two one off on diff show ?thesis by blast
qed

text \<open>
  Which buffer maps make \<open>setBuffers\<close> raise, when no name is empty: those
  with a buffer that has both a location and the element-array target, and
  those with two or more buffers that have the element-array target and no
  location. The options and the state of the program and of the context play
  no part.
\<close>

lemma sortBuffersLoop_raises_iff:
  assumes "\<forall>nb\<in>set bs. fst nb \<noteq> []" and "elements acc \<noteq> Some []"
  shows "(\<exists>e. fst (sortBuffersLoop bs acc this) = Inl e) \<longleftrightarrow>
           located_elements (attributeLocations this) bs \<noteq> [] \<or>
           2 \<le> (if elements acc = None then 0 else 1) +
                 length (index_candidates (attributeLocations this) bs)"
  using assms
proof (induction bs arbitrary: acc this)
  case Nil
  then show ?case by (simp add: located_elements_def index_candidates_def)
next
  case (Cons a bs)
  obtain n b where a: "a = (n, b)" by (cases a)
  have n: "n \<noteq> []" and rest: "\<forall>nb\<in>set bs. fst nb \<noteq> []"
    using Cons.prems(1) a by auto
  have tr: "truthy (elements acc) \<longleftrightarrow> elements acc \<noteq> None"
    using Cons.prems(2) by (cases "elements acc") (auto simp: truthy_def)
  have IH: "(\<exists>e. fst (sortBuffersLoop bs acc' p) = Inl e) \<longleftrightarrow>
              located_elements (attributeLocations this) bs \<noteq> [] \<or>
              2 \<le> (if elements acc' = None then 0 else 1) +
                    length (index_candidates (attributeLocations this) bs)"
    if "elements acc' \<noteq> Some []" "attributeLocations p = attributeLocations this" for acc' p
    using Cons.IH[OF rest that(1), of p] that(2) by simp
  show ?case
  proof (cases "map_of (attributeLocations this) n")
    case None
    show ?thesis
    proof (cases "target b = GL_ELEMENT_ARRAY_BUFFER")
      case True
      show ?thesis
      proof (cases "elements acc = None")
        case True
        have "(\<exists>e. fst (sortBuffersLoop (a # bs) acc this) = Inl e) \<longleftrightarrow>
              (\<exists>e. fst (sortBuffersLoop bs (acc\<lparr>elements := Some n\<rparr>) this) = Inl e)"
          unfolding a using None \<open>target b = GL_ELEMENT_ARRAY_BUFFER\<close> True tr by simp
        also have "\<dots> \<longleftrightarrow> located_elements (attributeLocations this) bs \<noteq> [] \<or>
              2 \<le> 1 + length (index_candidates (attributeLocations this) bs)"
          using IH[of "acc\<lparr>elements := Some n\<rparr>" this] n by simp
        finally show ?thesis
          unfolding a using None \<open>target b = GL_ELEMENT_ARRAY_BUFFER\<close> True
          by (simp add: located_elements_def index_candidates_def)
      next
        case False
        then show ?thesis
          unfolding a using None True tr
          by (auto simp: located_elements_def index_candidates_def)
      qed
    next
      case False
      have "(\<exists>e. fst (sortBuffersLoop (a # bs) acc this) = Inl e) \<longleftrightarrow>
              located_elements (attributeLocations this) bs \<noteq> [] \<or>
              2 \<le> (if elements acc = None then 0 else 1) +
                    length (index_candidates (attributeLocations this) bs)"
        unfolding a using None False Cons.prems(2)
        by (simp add: IH log_warn_def)
      then show ?thesis
        unfolding a using None False
        by (simp add: located_elements_def index_candidates_def)
    qed
  next
    case (Some location)
    show ?thesis
    proof (cases "target b = GL_ELEMENT_ARRAY_BUFFER")
      case True
      then show ?thesis
        unfolding a using Some by (simp add: located_elements_def)
    next
      case False
      have "(\<exists>e. fst (sortBuffersLoop (a # bs) acc this) = Inl e) \<longleftrightarrow>
              located_elements (attributeLocations this) bs \<noteq> [] \<or>
              2 \<le> (if elements acc = None then 0 else 1) +
                    length (index_candidates (attributeLocations this) bs)"
        unfolding a using Some False Cons.prems(2)
        by (simp add: IH)
      then show ?thesis
        unfolding a using Some False
        by (simp add: located_elements_def index_candidates_def)
    qed
  qed
qed

lemma sortBuffersLoop_elements:
  "fst (sortBuffersLoop bs acc this) = Inr r \<Longrightarrow>
   elements r = elements acc \<or> (\<exists>n. elements r = Some n \<and> map_of bs n \<noteq> None)"
proof (induction bs arbitrary: acc this)
  case Nil
  then show ?case by simp
next
  case (Cons a bs)
  obtain n b where a: "a = (n, b)" by (cases a)
  have step: "elements r = elements acc' \<or> (\<exists>m. elements r = Some m \<and> map_of (a # bs) m \<noteq> None)"
    if "fst (sortBuffersLoop bs acc' p) = Inr r" for acc' p
    using Cons.IH[OF that] unfolding a by auto
  show ?case
  proof (cases "map_of (attributeLocations this) n")
    case None
    show ?thesis
    proof (cases "target b = GL_ELEMENT_ARRAY_BUFFER")
      case True
      then have "fst (sortBuffersLoop bs (acc\<lparr>elements := Some n\<rparr>) this) = Inr r"
        using Cons.prems None unfolding a by (simp split: if_splits)
      from step[OF this] show ?thesis unfolding a by auto
    next
      case False
      then consider "fst (sortBuffersLoop bs acc this) = Inr r"
        | "fst (sortBuffersLoop bs acc
              ((log_warn this (NotUsed n))\<lparr>warn := (warn this)(n := True)\<rparr>)) = Inr r"
        using Cons.prems None unfolding a by (simp split: if_splits)
      then show ?thesis
        by cases (use step in blast)+
    qed
  next
    case (Some location)
    then have "fst (sortBuffersLoop bs
        (acc\<lparr>locations := array_store (locations acc) location n\<rparr>) this) = Inr r"
      using Cons.prems unfolding a by (simp split: if_splits)
    from step[OF this] show ?thesis by simp
  qed
qed

lemma setBuffers_raises_iff:
  assumes "\<forall>nb\<in>set buffers. fst nb \<noteq> []"
  shows "fst (setBuffers this gl (BufferMap buffers) options) \<noteq> None \<longleftrightarrow>
           located_elements (attributeLocations this) buffers \<noteq> [] \<or>
           2 \<le> length (index_candidates (attributeLocations this) buffers)"
proof -
  define P where "P = (if clear options then this\<lparr>filledLocations := {}\<rparr> else this)"
  define init where "init = \<lparr>locations = replicate (attributeCount P) (None :: string option),
                             elements = None\<rparr>"
  define S where "S = sortBuffersLoop buffers init P"
  have al: "attributeLocations P = attributeLocations this"
    by (simp add: P_def)
  have iff: "(\<exists>e. fst S = Inl e) \<longleftrightarrow>
           located_elements (attributeLocations this) buffers \<noteq> [] \<or>
           2 \<le> length (index_candidates (attributeLocations this) buffers)"
    using sortBuffersLoop_raises_iff[OF assms, of init P]
    by (simp add: S_def al init_def)
  have unfold: "fst (setBuffers this gl (BufferMap buffers) options) =
      (case fst S of
         Inl e \<Rightarrow> Some e
       | Inr r \<Rightarrow>
           (case bindElements buffers (elements r)
                   (snd (bindLocations buffers (locations r) 0 (snd S, gl,
                      \<lparr>dp_isInstanced = Some False, dp_isIndexed = Some False,
                       dp_indexType = None\<rparr>))) of
              Inl e \<Rightarrow> Some e
            | Inr x \<Rightarrow> None))"
    by (simp add: setBuffers_def sortBuffersByLocation_def S_def init_def P_def Let_def
          split: prod.splits sum.splits)
  show ?thesis
  proof (cases "fst S")
    case (Inl e)
    then show ?thesis using iff unfold by simp
  next
    case (Inr r)
    define st where "st = snd (bindLocations buffers (locations r) 0 (snd S, gl,
                      \<lparr>dp_isInstanced = Some False, dp_isIndexed = Some False,
                       dp_indexType = None\<rparr>))"
    have named: "elements r = None \<or> (\<exists>n. elements r = Some n \<and> map_of buffers n \<noteq> None)"
      using sortBuffersLoop_elements[of buffers init P r] Inr
      by (simp add: S_def init_def)
    have "\<exists>x. bindElements buffers (elements r) st = Inr x"
    proof (cases st)
      case (Pair g d)
      from named show ?thesis
      proof
        assume "elements r = None"
        then show ?thesis by (simp add: Pair bindElements_def truthy_def)
      next
        assume "\<exists>n. elements r = Some n \<and> map_of buffers n \<noteq> None"
        then obtain n y where "elements r = Some n" "map_of buffers n = Some y"
          by auto
        then show ?thesis by (simp add: Pair bindElements_def truthy_def)
      qed
    qed
    then obtain x where "bindElements buffers (elements r) st = Inr x"
      by blast
    then have "fst (setBuffers this gl (BufferMap buffers) options) = None"
      using unfold Inr by (simp add: st_def)
    moreover have "\<not> (\<exists>e. fst S = Inl e)"
      using Inr by simp
    ultimately show ?thesis
      using iff by simp
  qed
qed

text \<open>
  A buffer whose name has no location and that is no index buffer raises
  nothing and is warned about once: a name once warned stays warned, sorting
  marks every such name, and names already warned add nothing to the log.
\<close>

lemma sortBuffersLoop_warn_mono:
  "warn this n \<Longrightarrow> warn (snd (sortBuffersLoop bs acc this)) n"
proof (induction bs arbitrary: acc this)
  case Nil
  then show ?case by simp
next
  case (Cons a bs)
  obtain bufferName b where a: "a = (bufferName, b)" by (cases a)
  show ?case
    unfolding a using Cons.prems
    by (simp split: option.splits add: Cons.IH log_warn_def)
qed

lemma sortBuffersLoop_warned_silent:
  "\<forall>nb\<in>set bs. warn this (fst nb) \<Longrightarrow>
   logged (snd (sortBuffersLoop bs acc this)) = logged this"
proof (induction bs arbitrary: acc this)
  case Nil
  then show ?case by simp
next
  case (Cons a bs)
  obtain bufferName b where a: "a = (bufferName, b)" by (cases a)
  show ?case
    unfolding a using Cons.prems
    by (simp split: option.splits add: Cons.IH a)
qed

lemma sortBuffersLoop_marks_unused:
  assumes "fst (sortBuffersLoop bs acc this) = Inr r" and "(n, b) \<in> set bs"
    and "map_of (attributeLocations this) n = None"
    and "target b \<noteq> GL_ELEMENT_ARRAY_BUFFER"
  shows "warn (snd (sortBuffersLoop bs acc this)) n"
  using assms(1-3)
proof (induction bs arbitrary: acc this)
  case Nil
  then show ?case by simp
next
  case (Cons a bs)
  obtain bufferName b' where a: "a = (bufferName, b')" by (cases a)
  show ?case
  proof (cases "a = (n, b)")
    case True
    then show ?thesis
      using Cons.prems(3) assms(4)
      by (simp add: sortBuffersLoop_warn_mono log_warn_def)
  next
    case False
    then have mem: "(n, b) \<in> set bs"
      using Cons.prems(2) by simp
    have rec: "warn (snd (sortBuffersLoop bs acc' p)) n"
      if "fst (sortBuffersLoop bs acc' p) = Inr r" "attributeLocations p = attributeLocations this"
      for acc' p
      using Cons.IH[OF that(1) mem] that(2) Cons.prems(3) by simp
    show ?thesis
      using Cons.prems(1) unfolding a
      by (auto split: option.splits if_splits simp: log_warn_def intro!: rec)
  qed
qed

subsection \<open>setUniforms\<close>

lemma setUniforms_inv:
  "units_allocated this \<Longrightarrow>
   units_allocated (fst (setUniforms this gl us)) \<and>
   textureIndexCounter this \<le> textureIndexCounter (fst (setUniforms this gl us)) \<and>
   (\<forall>n k. unit_of this n = Some k \<longrightarrow> unit_of (fst (setUniforms this gl us)) n = Some k)"
proof (induction us arbitrary: this gl)
  case Nil
  then show ?case by simp
next
  case (Cons a us)
  obtain uniformName u where a: "a = (uniformName, u)" by (cases a)
  show ?case
  proof (cases "uniformSetters this uniformName")
    case None
    then show ?thesis using Cons a by simp
  next
    case (Some s)
    show ?thesis
    proof (cases u)
      case (ValueUniform v)
      then show ?thesis using Cons Some a by simp
    next
      case (TextureUniform tex)
      show ?thesis
      proof (cases "textureIndex s")
        case (Some k)
        then show ?thesis using Cons \<open>uniformSetters this uniformName = Some s\<close> a TextureUniform by simp
      next
        case None
        let ?c = "textureIndexCounter this"
        let ?this' = "this\<lparr>textureIndexCounter := Suc ?c,
                          uniformSetters := (uniformSetters this)(uniformName \<mapsto> s\<lparr>textureIndex := Some ?c\<rparr>)\<rparr>"
        let ?gl' = "call_setter (Texture_bind gl tex ?c) (s\<lparr>textureIndex := Some ?c\<rparr>) [int ?c]"
        have step: "setUniforms this gl (a # us) = setUniforms ?this' ?gl' us"
          using \<open>uniformSetters this uniformName = Some s\<close> a TextureUniform None
          by (simp add: Let_def)
        have old: "unit_of this uniformName = None"
          using \<open>uniformSetters this uniformName = Some s\<close> None by (simp add: unit_of_def)
        have u': "unit_of ?this' = (unit_of this)(uniformName \<mapsto> ?c)"
          by (auto simp: unit_of_def fun_eq_iff)
        have inv': "units_allocated ?this'"
          using Cons.prems old unfolding units_allocated_def u'
          by (auto simp: less_Suc_eq split: if_splits) 
        have keep: "\<forall>n k. unit_of this n = Some k \<longrightarrow> unit_of ?this' n = Some k"
          using old unfolding u' by auto
        from Cons.IH[OF inv', of ?gl'] keep show ?thesis
          unfolding step by auto
      qed
    qed
  qed
qed

lemma freshly_linked_units_allocated: "freshly_linked this \<Longrightarrow> units_allocated this"
  by (simp add: freshly_linked_def units_allocated_def)

text \<open>
  C5. From a sound state of the unit allocator (the state of a freshly linked
  program is one), after any sequence of \<open>setUniforms\<close> calls, with whatever
  textures: the state is sound again, so every recorded unit is below the
  counter and no unit belongs to two uniforms; the counter has not decreased;
  and every uniform that had a unit before the calls has the same unit after
  them.
\<close>

theorem texture_units_stable:
  assumes "units_allocated this"
  shows "units_allocated (fst (setUniforms_calls this gl calls)) \<and>
         textureIndexCounter this \<le> textureIndexCounter (fst (setUniforms_calls this gl calls)) \<and>
         (\<forall>n k. unit_of this n = Some k \<longrightarrow>
                unit_of (fst (setUniforms_calls this gl calls)) n = Some k)"
  using assms
proof (induction calls arbitrary: this gl)
  case Nil
  then show ?case by simp
next
  case (Cons us later)
  obtain this' gl' where step: "setUniforms this gl us = (this', gl')"
    by (cases "setUniforms this gl us")
  have one: "units_allocated this' \<and> textureIndexCounter this \<le> textureIndexCounter this' \<and>
             (\<forall>n k. unit_of this n = Some k \<longrightarrow> unit_of this' n = Some k)"
    using setUniforms_inv[OF Cons.prems, of gl us] by (simp add: step)
  then have "units_allocated this'" by simp
  from Cons.IH[OF this, of gl'] one show ?case
    by (auto simp: step)
qed

theorem texture_units_stable_witness:
  "units_allocated program_example \<and>
   unit_of (fst (setUniforms program_example context_example
                   [(''sampler1'', TextureUniform 10)])) ''sampler1'' = Some 0 \<and>
   unit_of (fst (setUniforms_calls
                   (fst (setUniforms program_example context_example
                           [(''sampler1'', TextureUniform 10)]))
                   context_example
                   [[(''sampler2'', TextureUniform 11), (''sampler1'', TextureUniform 12)],
                    [(''sampler1'', TextureUniform 13)]])) ''sampler1'' = Some 0 \<and>
   unit_of (fst (setUniforms_calls
                   (fst (setUniforms program_example context_example
                           [(''sampler1'', TextureUniform 10)]))
                   context_example
                   [[(''sampler2'', TextureUniform 11), (''sampler1'', TextureUniform 12)],
                    [(''sampler1'', TextureUniform 13)]])) ''sampler2'' = Some 1"
proof -
  let ?p = "fst (setUniforms program_example context_example [(''sampler1'', TextureUniform 10)])"
  have u: "\<forall>n. unit_of program_example n = None"
    by (simp add: unit_of_def program_example_def)
  then have a: "units_allocated program_example"
    by (simp add: units_allocated_def)
  have first: "unit_of ?p ''sampler1'' = Some 0"
    by (simp add: unit_of_def program_example_def Let_def)
  have b: "units_allocated ?p"
    using texture_units_stable[OF a, of context_example "[[(''sampler1'', TextureUniform 10)]]"]
    by (simp split: prod.splits)
  have second: "unit_of (fst (setUniforms_calls ?p context_example
                   [[(''sampler2'', TextureUniform 11), (''sampler1'', TextureUniform 12)],
                    [(''sampler1'', TextureUniform 13)]])) ''sampler2'' = Some 1"
    by (simp add: unit_of_def program_example_def Let_def)
  from texture_units_stable[OF b, of context_example
         "[[(''sampler2'', TextureUniform 11), (''sampler1'', TextureUniform 12)],
           [(''sampler1'', TextureUniform 13)]]"] first a second
  show ?thesis by blast
qed

end
